theory Spec2Isabelle
  imports Main "HOL-Library.Word" "HOL-Library.Signed_Division"
begin

section \<open>The WinDV capture bridge (WinDVCaptureBridge.cpp)\<close>

text \<open>
  A shallow embedding of \<^verbatim>\<open>src/dv2plex/bin/windv/WinDVCaptureBridge.cpp\<close>.

  Conventions of the embedding.
  \<^item> A nullable pointer is an \<open>option\<close>; \<open>None\<close> is \<^verbatim>\<open>nullptr\<close>.
  \<^item> A C \<^verbatim>\<open>int\<close> is an \<open>int\<close>: the file does no arithmetic on its integers apart from
    one division by two, so no value leaves the 32-bit range it came in with. A
    \<^verbatim>\<open>BOOL\<close> is an \<open>int\<close> too, true when it is not zero.
  \<^item> Wide and narrow strings are both \<open>string\<close>. The file looks at a character only
    to compare it with the two path separators and looks at a string only to ask
    whether it is empty; the code-page conversions between the two kinds of string
    are parameters of the model (record \<open>platform\<close>).
  \<^item> The engine is a record that every member function takes and returns; a member
    function is one step of one calling thread, made when no other call holds the
    mutex \<^verbatim>\<open>m_mutex\<close>.
  \<^item> \<^verbatim>\<open>m_mutex\<close> is a \<^verbatim>\<open>std::mutex\<close>, which its owner must not lock again. A function
    that locks it while its caller holds it does not return; such a call ends in
    \<open>Relock\<close> with the engine as it stood (type \<open>call_end\<close>). The functions that
    lock and are called from inside a lock scope, \<^verbatim>\<open>SetError\<close> and \<^verbatim>\<open>StopCapture\<close>, are
    told whether the caller holds the mutex.
  \<^item> What an external collaborator does (a constructor that throws, the host file
    system, the result of \<^verbatim>\<open>CoInitializeEx\<close>) is an explicit input.
\<close>

subsection \<open>Options (WinDVCaptureBridge.h) and their normal form\<close>

record WindvCaptureOptions =
  output_directory :: "string option"
  file_base_name :: "string option"
  datetime_format :: "string option"
  numeric_suffix_digits :: int
  type2_avi :: int
  enable_preview :: int
  queue_size :: int

record NormalizedOptions =
  basePath :: string
  datetimeFormat :: string
  numericDigits :: int
  type2Avi :: bool
  enablePreview :: bool
  queueSize :: int

text \<open>The member initialisers of \<^verbatim>\<open>struct NormalizedOptions\<close>.\<close>

definition NormalizedOptions_default :: NormalizedOptions where
  "NormalizedOptions_default =
     \<lparr>basePath = [], datetimeFormat = [], numericDigits = 0, type2Avi = True,
      enablePreview = True, queueSize = 120\<rparr>"

text \<open>
  The conversions the platform supplies: \<open>CStringA_of_wide\<close> is the \<^verbatim>\<open>CStringA\<close>
  constructor from a wide string, \<open>MultiByteToWideChar\<close> the API of that name, which
  yields \<open>None\<close> when it reports a required length that is not positive.
\<close>

record platform =
  CStringA_of_wide :: "string \<Rightarrow> string"
  MultiByteToWideChar :: "string \<Rightarrow> string option"

definition backslash :: char where
  "backslash = CHR 0x5C"

definition slash :: char where
  "slash = CHR ''/''"

definition AnsiToWide :: "platform \<Rightarrow> string \<Rightarrow> string" where
  "AnsiToWide p v =
     (if v = [] then []
      else case MultiByteToWideChar p v of None \<Rightarrow> [] | Some buffer \<Rightarrow> buffer)"

definition Normalize :: "platform \<Rightarrow> WindvCaptureOptions \<Rightarrow> NormalizedOptions" where
  "Normalize p options =
     (let normalized = NormalizedOptions_default
          \<lparr>enablePreview := (enable_preview options \<noteq> 0),
           type2Avi := (type2_avi options \<noteq> 0),
           numericDigits :=
             (if numeric_suffix_digits options > 0 then numeric_suffix_digits options else 0),
           queueSize := (if queue_size options > 0 then queue_size options else 120)\<rparr>;
          basePath0 =
            (case output_directory options of
               None \<Rightarrow> []
             | Some d \<Rightarrow>
                 if d = [] then []
                 else if d \<noteq> [] \<and> last d \<noteq> backslash \<and> last d \<noteq> slash
                   then d @ [backslash]
                   else d);
          basePath1 =
            (case file_base_name options of
               None \<Rightarrow> basePath0 @ ''capture''
             | Some b \<Rightarrow> if b = [] then basePath0 @ ''capture'' else basePath0 @ b)
      in normalized
          \<lparr>basePath := CStringA_of_wide p basePath1,
           datetimeFormat :=
             (case datetime_format options of
                None \<Rightarrow> ''%Y%m%d_%H%M%S''
              | Some f \<Rightarrow> if f = [] then ''%Y%m%d_%H%M%S'' else CStringA_of_wide p f)\<rparr>)"

text \<open>The words of the specification about the parts of the output path.\<close>

definition has_trailing_separator :: "string \<Rightarrow> bool" where
  "has_trailing_separator d = (d \<noteq> [] \<and> (last d = backslash \<or> last d = slash))"

definition base_name_or_default :: "WindvCaptureOptions \<Rightarrow> string" where
  "base_name_or_default options =
     (case file_base_name options of
        None \<Rightarrow> ''capture''
      | Some b \<Rightarrow> if b = [] then ''capture'' else b)"

definition ascii_platform :: platform where
  "ascii_platform = \<lparr>CStringA_of_wide = (\<lambda>w. w), MultiByteToWideChar = (\<lambda>a. Some a)\<rparr>"

subsection \<open>The engine and its collaborators\<close>

datatype State = Idle | Capturing | Stopping

text \<open>
  A frame as \<^verbatim>\<open>HandleFrame\<close>, \<^verbatim>\<open>Put\<close> and \<^verbatim>\<open>Get\<close> pass it: the duration, the data
  pointer (\<open>None\<close> is \<^verbatim>\<open>nullptr\<close>) and the length.
\<close>

record dv_frame =
  frame_duration :: int
  frame_data :: "8 word list option"
  frame_len :: int

text \<open>
  The collaborators are declared in \<^verbatim>\<open>DShow.h\<close>, which is not among the sources. The
  model keeps of each object what its constructor call in \<^verbatim>\<open>StartCapture\<close> hands over.
\<close>

record CMediaType =
  lSampleSize :: "32 word"

record CDVInput =
  input_device :: string
  input_running :: bool

record CMonitor =
  monitor_window :: nat

record CDVQueue =
  queue_size_arg :: int
  queue_sample_size :: int
  queue_entries :: "dv_frame list"

record CAVIWriter =
  writer_base_path :: string
  writer_datetime_format :: string
  writer_numeric_digits :: int
  writer_start_time :: int
  writer_type2 :: bool

record CWinThread =
  m_bAutoDelete :: bool
  thread_suspended :: bool

record engine =
  m_state :: State
  m_comInitialized :: bool
  m_deviceWide :: string
  m_deviceAnsi :: string
  m_previewWindow :: "nat option"
  m_dvInput :: "CDVInput option"
  m_monitor :: "CMonitor option"
  m_queue :: "CDVQueue option"
  m_writer :: "CAVIWriter option"
  m_captureThread :: "CWinThread option"
  m_mediaType :: CMediaType
  m_options :: NormalizedOptions
  m_lastError :: string

text \<open>The constructor \<^verbatim>\<open>WinDVCaptureEngine::WinDVCaptureEngine\<close>.\<close>

definition WinDVCaptureEngine :: engine where
  "WinDVCaptureEngine =
     \<lparr>m_state = Idle, m_comInitialized = False, m_deviceWide = [], m_deviceAnsi = [],
      m_previewWindow = None, m_dvInput = None, m_monitor = None, m_queue = None,
      m_writer = None, m_captureThread = None, m_mediaType = \<lparr>lSampleSize = 0\<rparr>,
      m_options = NormalizedOptions_default, m_lastError = []\<rparr>"

text \<open>The messages of the file; \<open>CHR 0xE4\<close> is the letter a with diaeresis.\<close>

definition msg_CoInitializeEx :: string where
  "msg_CoInitializeEx = ''CoInitializeEx fehlgeschlagen.''"

definition msg_device_busy :: string where
  "msg_device_busy =
     ''Ger'' @ [CHR 0xE4] @ ''t kann w'' @ [CHR 0xE4] @
     ''hrend einer laufenden Aufnahme nicht ge'' @ [CHR 0xE4] @ ''ndert werden.''"

definition msg_preview_busy :: string where
  "msg_preview_busy =
     ''Preview-Fenster kann w'' @ [CHR 0xE4] @
     ''hrend einer laufenden Aufnahme nicht gewechselt werden.''"

definition msg_directory :: string where
  "msg_directory = ''Verzeichnis konnte nicht erstellt werden.''"

definition msg_no_device :: string where
  "msg_no_device = ''Kein DirectShow-Ger'' @ [CHR 0xE4] @ ''t konfiguriert.''"

definition msg_already_running :: string where
  "msg_already_running = ''Aufnahme l'' @ [CHR 0xE4] @ ''uft bereits.''"

definition msg_thread :: string where
  "msg_thread = ''Capture-Thread konnte nicht gestartet werden.''"

definition msg_unknown :: string where
  "msg_unknown = ''Unbekannter Fehler beim Starten der Aufnahme.''"

definition msg_device_name :: string where
  "msg_device_name = ''Device-Name darf nicht leer sein.''"

text \<open>
  How a call ends: it returns a result, or it locks \<^verbatim>\<open>m_mutex\<close> while the calling
  thread already holds it and never returns, leaving the world as \<open>Relock\<close> records
  it (the mutex stays locked).
\<close>

datatype ('r, 'w) call_end = Returns 'r | Relock 'w

fun and_then :: "('a, 'w) call_end \<Rightarrow> ('a \<Rightarrow> ('b, 'w) call_end) \<Rightarrow> ('b, 'w) call_end" where
  "and_then (Returns x) f = f x"
| "and_then (Relock w) f = Relock w"

fun engine_left :: "(engine, engine) call_end \<Rightarrow> engine" where
  "engine_left (Returns s) = s"
| "engine_left (Relock s) = s"

text \<open>
  \<^verbatim>\<open>SetError\<close> locks \<^verbatim>\<open>m_mutex\<close> (line 466) and then assigns; \<open>held\<close> says that the
  calling thread holds \<^verbatim>\<open>m_mutex\<close> when it makes the call.
\<close>

definition SetError :: "bool \<Rightarrow> engine \<Rightarrow> string \<Rightarrow> (engine, engine) call_end" where
  "SetError held s message =
     (if held then Relock s else Returns (s\<lparr>m_lastError := message\<rparr>))"

definition LastError :: "engine \<Rightarrow> string" where
  "LastError s = m_lastError s"

subsection \<open>The host file system and directory preparation\<close>

text \<open>
  Modelled from the spec: the directory existence and creation primitives of the host
  file system (\<^verbatim>\<open>GetFileAttributesW\<close>, \<^verbatim>\<open>CreateDirectoryW\<close>, \<^verbatim>\<open>GetLastError\<close>), which the
  specification names as external collaborators. A node is known by the path string
  it was created under. \<open>refused\<close> holds the paths the host will not create for a
  reason of its own (access rights, a full disk); \<open>created\<close> lists the directories
  made so far, oldest first.
\<close>

datatype node = Directory | RegularFile

datatype win_error = ERROR_ALREADY_EXISTS | ERROR_PATH_NOT_FOUND | ERROR_ACCESS_DENIED

record filesystem =
  nodes :: "string \<Rightarrow> node option"
  refused :: "string \<Rightarrow> bool"
  created :: "string list"

definition separators :: string where
  "separators = [backslash, slash]"

text \<open>\<^verbatim>\<open>std::wstring::find_last_of\<close>; \<open>None\<close> is \<^verbatim>\<open>npos\<close>.\<close>

fun find_last_of :: "string \<Rightarrow> string \<Rightarrow> nat option" where
  "find_last_of [] cs = None"
| "find_last_of (x # xs) cs =
     (case find_last_of xs cs of
        Some i \<Rightarrow> Some (Suc i)
      | None \<Rightarrow> if x \<in> set cs then Some 0 else None)"

definition is_directory :: "filesystem \<Rightarrow> string \<Rightarrow> bool" where
  "is_directory fs d = (nodes fs d = Some Directory)"

text \<open>
  Modelled from the spec: the host creates a directory when nothing has its name,
  the directory above it exists (a name with no separator, or with nothing before
  its last separator, lies in the current or the root directory) and the host has
  no objection of its own.
\<close>

definition parent_exists :: "filesystem \<Rightarrow> string \<Rightarrow> bool" where
  "parent_exists fs d =
     (case find_last_of d separators of
        None \<Rightarrow> True
      | Some pos \<Rightarrow> take pos d = [] \<or> is_directory fs (take pos d))"

definition CreateDirectoryW :: "filesystem \<Rightarrow> string \<Rightarrow> win_error + filesystem" where
  "CreateDirectoryW fs d =
     (if nodes fs d \<noteq> None then Inl ERROR_ALREADY_EXISTS
      else if \<not> parent_exists fs d then Inl ERROR_PATH_NOT_FOUND
      else if refused fs d then Inl ERROR_ACCESS_DENIED
      else Inr (fs\<lparr>nodes := (nodes fs)(d \<mapsto> Directory), created := created fs @ [d]\<rparr>))"

text \<open>
  \<^verbatim>\<open>EnsureDirectories\<close> takes no lock and is called with \<^verbatim>\<open>m_mutex\<close> free (line 262, ahead
  of the lock of line 267), so its call of \<^verbatim>\<open>SetError\<close> returns.
\<close>

function EnsureDirectories :: "string \<Rightarrow> engine \<times> filesystem \<Rightarrow> bool \<times> engine \<times> filesystem" where
  "EnsureDirectories path (s, fs) =
     (if path = [] then (True, s, fs)
      else case find_last_of path separators of
        None \<Rightarrow> (True, s, fs)
      | Some pos \<Rightarrow>
          (let directory = take pos path in
           if directory = [] then (True, s, fs)
           else if is_directory fs directory then (True, s, fs)
           else (case EnsureDirectories directory (s, fs) of
                   (ok, s1, fs1) \<Rightarrow>
                     if \<not> ok then (False, s1, fs1)
                     else (case CreateDirectoryW fs1 directory of
                             Inr fs2 \<Rightarrow> (True, s1, fs2)
                           | Inl err \<Rightarrow>
                               if err = ERROR_ALREADY_EXISTS then (True, s1, fs1)
                               else (False, engine_left (SetError False s1 msg_directory),
                                     fs1)))))"
  by pat_completeness auto
termination
proof (relation "measure (\<lambda>(path, w). length path)")
  show "wf (measure (\<lambda>(path, w). length path))"
    by simp
next
  fix path :: string and s :: engine and fs :: filesystem and pos :: nat and directory :: string
  assume found: "find_last_of path separators = Some pos"
    and dir: "directory = take pos path"
  have "find_last_of p cs = Some i \<Longrightarrow> i < length p" for p cs i
    by (induction p arbitrary: i) (auto split: option.splits if_splits)
  from this [OF found] dir
  show "((directory, s, fs), (path, s, fs)) \<in> measure (\<lambda>(path, w). length path)"
    by simp
qed

text \<open>
  The words of the specification: the ancestor directories of a target path, from
  the outermost to the innermost, are its non-empty prefixes that end where a path
  separator follows; the missing ones are those that are not directories yet.
\<close>

definition ancestor_directories :: "string \<Rightarrow> string list" where
  "ancestor_directories path =
     map (\<lambda>i. take i path) (filter (\<lambda>i. path ! i \<in> set separators) [1 ..< length path])"

definition missing_directories :: "filesystem \<Rightarrow> string \<Rightarrow> string list" where
  "missing_directories fs path = filter (\<lambda>d. \<not> is_directory fs d) (ancestor_directories path)"

definition parent_closed :: "filesystem \<Rightarrow> bool" where
  "parent_closed fs =
     (\<forall>d. is_directory fs d \<longrightarrow> (\<forall>a \<in> set (ancestor_directories d). is_directory fs a))"

definition with_directories :: "filesystem \<Rightarrow> string list \<Rightarrow> filesystem" where
  "with_directories fs ds =
     fs\<lparr>nodes := (\<lambda>d. if d \<in> set ds then Some Directory else nodes fs d),
        created := created fs @ ds\<rparr>"

definition proper_prefix :: "string \<Rightarrow> string \<Rightarrow> bool" where
  "proper_prefix outer inner =
     (length outer < length inner \<and> take (length outer) inner = outer)"

subsection \<open>Initialisation and configuration\<close>

text \<open>
  \<open>hr\<close> is what \<^verbatim>\<open>CoInitializeEx\<close> returns when it is called, an \<^verbatim>\<open>HRESULT\<close> read as a
  signed 32-bit number; \<^verbatim>\<open>RPC_E_CHANGED_MODE\<close> is \<^verbatim>\<open>0x80010106\<close>. Each of the three
  functions holds a \<^verbatim>\<open>lock_guard\<close> on \<^verbatim>\<open>m_mutex\<close> (lines 118, 139, 153) where it calls
  \<^verbatim>\<open>SetError\<close>.
\<close>

definition FAILED :: "int \<Rightarrow> bool" where
  "FAILED hr = (hr < 0)"

definition RPC_E_CHANGED_MODE :: int where
  "RPC_E_CHANGED_MODE = - 2147417850"

definition Initialize :: "int \<Rightarrow> engine \<Rightarrow> (bool \<times> engine, engine) call_end" where
  "Initialize hr s =
     (if \<not> m_comInitialized s then
        if FAILED hr \<and> hr \<noteq> RPC_E_CHANGED_MODE
        then and_then (SetError True s msg_CoInitializeEx) (\<lambda>s1. Returns (False, s1))
        else Returns (True, s\<lparr>m_comInitialized := True\<rparr>)
      else Returns (True, s))"

definition SetDevice ::
    "platform \<Rightarrow> int \<Rightarrow> string \<Rightarrow> engine \<Rightarrow> (bool \<times> engine, engine) call_end" where
  "SetDevice p hr deviceName s =
     and_then (Initialize hr s)
       (\<lambda>(ok, s1).
          if \<not> ok then Returns (False, s1)
          else if m_state s1 \<noteq> Idle
            then and_then (SetError True s1 msg_device_busy) (\<lambda>s2. Returns (False, s2))
          else Returns (True, s1\<lparr>m_deviceWide := deviceName,
                                  m_deviceAnsi := CStringA_of_wide p deviceName\<rparr>))"

definition SetPreviewWindow :: "nat option \<Rightarrow> engine \<Rightarrow> (bool \<times> engine, engine) call_end" where
  "SetPreviewWindow hwnd s =
     (if m_state s = Capturing
      then and_then (SetError True s msg_preview_busy) (\<lambda>s1. Returns (False, s1))
      else Returns (True, s\<lparr>m_previewWindow := hwnd\<rparr>))"

text \<open>\<^verbatim>\<open>ReportExternalError\<close> holds no lock when it calls \<^verbatim>\<open>SetError\<close>.\<close>

definition ReportExternalError :: "string \<Rightarrow> engine \<Rightarrow> (engine, engine) call_end" where
  "ReportExternalError message s = SetError False s message"

subsection \<open>The frame queue and the producer callback\<close>

text \<open>
  Modelled from the spec: \<^verbatim>\<open>CDVQueue::Put\<close> (declared in \<^verbatim>\<open>DShow.h\<close>) enqueues the
  frame. That \<^verbatim>\<open>Put\<close> blocks on a full queue is not modelled.
\<close>

definition Put :: "CDVQueue \<Rightarrow> dv_frame \<Rightarrow> CDVQueue" where
  "Put q f = q\<lparr>queue_entries := queue_entries q @ [f]\<rparr>"

definition HandleFrame :: "int \<Rightarrow> 8 word list option \<Rightarrow> int \<Rightarrow> engine \<Rightarrow> engine" where
  "HandleFrame duration data len s =
     (case m_queue s of
        None \<Rightarrow> s
      | Some q \<Rightarrow>
          s\<lparr>m_queue :=
              Some (Put q \<lparr>frame_duration = duration, frame_data = data, frame_len = len\<rparr>)\<rparr>)"

text \<open>The entry \<^verbatim>\<open>StopCapture\<close> enqueues: \<^verbatim>\<open>Put(-1, nullptr, 0)\<close>.\<close>

definition sentinel :: dv_frame where
  "sentinel = \<lparr>frame_duration = - 1, frame_data = None, frame_len = 0\<rparr>"

subsection \<open>Stopping and starting a capture\<close>

text \<open>
  \<open>StopCapture\<close> is what a call of \<^verbatim>\<open>StopCapture\<close> does once it has obtained \<^verbatim>\<open>m_mutex\<close>
  at line 345; it gives the mutex up around the wait and at its end, so it leaves
  the mutex as it found it. \<^verbatim>\<open>WaitForSingleObject\<close> with an infinite timeout is
  modelled as returning: the step describes a call that returns. Deleting a
  collaborator sets its pointer to \<open>None\<close>. \<open>StopCapture_call\<close> is the call with the
  lock of line 345: made by a thread that holds \<^verbatim>\<open>m_mutex\<close>, it does not return.
\<close>

definition StopCapture :: "engine \<Rightarrow> engine" where
  "StopCapture s =
     (if m_state s = Idle then s
      else
        let s1 = s\<lparr>m_state := Stopping\<rparr>;
            s2 = (case m_queue s1 of
                    None \<Rightarrow> s1
                  | Some q \<Rightarrow> s1\<lparr>m_queue := Some (Put q sentinel)\<rparr>);
            s3 = (case m_captureThread s2 of
                    None \<Rightarrow> s2
                  | Some thread \<Rightarrow> s2\<lparr>m_captureThread := None\<rparr>);
            s4 = (case m_dvInput s3 of
                    None \<Rightarrow> s3
                  | Some input \<Rightarrow> s3\<lparr>m_dvInput := None\<rparr>);
            s5 = (case m_monitor s4 of
                    None \<Rightarrow> s4
                  | Some monitor \<Rightarrow> s4\<lparr>m_monitor := None\<rparr>);
            s6 = (case m_writer s5 of
                    None \<Rightarrow> s5
                  | Some writer \<Rightarrow> s5\<lparr>m_writer := None\<rparr>);
            s7 = (case m_queue s6 of
                    None \<Rightarrow> s6
                  | Some q \<Rightarrow> s6\<lparr>m_queue := None\<rparr>)
        in s7\<lparr>m_state := Idle\<rparr>)"

definition StopCapture_call :: "bool \<Rightarrow> engine \<Rightarrow> (engine, engine) call_end" where
  "StopCapture_call held s = (if held then Relock s else Returns (StopCapture s))"

definition IsCapturing :: "engine \<Rightarrow> bool" where
  "IsCapturing s = (m_state s = Capturing)"

text \<open>\<^verbatim>\<open>Shutdown\<close> holds no lock when it calls \<^verbatim>\<open>StopCapture\<close> (line 403).\<close>

definition Shutdown :: "engine \<Rightarrow> engine" where
  "Shutdown s =
     (let s1 = engine_left (StopCapture_call False s)
      in if m_comInitialized s1 then s1\<lparr>m_comInitialized := False\<rparr> else s1)"

text \<open>
  What the \<^verbatim>\<open>try\<close> block of \<^verbatim>\<open>StartCapture\<close> can catch: a \<^verbatim>\<open>CDShowException*\<close> with its
  message, a \<^verbatim>\<open>CException*\<close> with the message \<^verbatim>\<open>GetErrorMessage\<close> reports, or anything
  else.
\<close>

datatype exn = CDShowException string | CException string | UnknownException

text \<open>
  What the collaborators do during one call of \<^verbatim>\<open>StartCapture\<close>. For a constructor or
  a call, \<open>None\<close> says that it returns and \<open>Some e\<close> that it throws \<open>e\<close>.
  \<^verbatim>\<open>GetMediaType\<close> reports a media type or throws; \<^verbatim>\<open>AfxBeginThread\<close> throws, or returns
  a thread (\<open>Inr True\<close>) or the null pointer (\<open>Inr False\<close>).
\<close>

record start_env =
  CoInitializeEx_result :: int
  new_CDVInput :: "exn option"
  GetMediaType_result :: "exn + CMediaType"
  new_CDVQueue :: "exn option"
  new_CMonitor :: "exn option"
  new_CAVIWriter :: "exn option"
  Run_result :: "exn option"
  AfxBeginThread_result :: "exn + bool"
  time_now :: int

text \<open>
  How the \<^verbatim>\<open>try\<close> block ends: it runs to its end, it returns a value from inside, or
  an exception leaves it. Each carries the engine as the block left it. The block
  runs inside the scope of the \<^verbatim>\<open>lock_guard\<close> of line 267, so its calls of \<^verbatim>\<open>SetError\<close>
  and \<^verbatim>\<open>StopCapture\<close> (lines 309 and 310) are made with \<^verbatim>\<open>m_mutex\<close> held.
\<close>

datatype try_result = Completed engine | Returned bool engine | Thrown exn engine

definition StartCapture_try ::
    "start_env \<Rightarrow> NormalizedOptions \<Rightarrow> engine \<Rightarrow> (try_result, engine) call_end" where
  "StartCapture_try env normalized s =
     (case new_CDVInput env of
        Some e \<Rightarrow> Returns (Thrown e s)
      | None \<Rightarrow>
     let s1 = s\<lparr>m_dvInput := Some \<lparr>input_device = m_deviceAnsi s, input_running = False\<rparr>\<rparr> in
     case GetMediaType_result env of
        Inl e \<Rightarrow> Returns (Thrown e s1)
      | Inr mt \<Rightarrow>
     let s2 = (if sint (lSampleSize mt) < 144000
               then s1\<lparr>m_mediaType := mt\<lparr>lSampleSize := 144000\<rparr>\<rparr>
               else s1\<lparr>m_mediaType := mt\<rparr>);
         sampleSize = (if sint (lSampleSize mt) < 144000 then 144000 else sint (lSampleSize mt)) in
     case new_CDVQueue env of
        Some e \<Rightarrow> Returns (Thrown e s2)
      | None \<Rightarrow>
     let s3 = s2\<lparr>m_queue := Some \<lparr>queue_size_arg = queueSize normalized,
                                    queue_sample_size = sampleSize, queue_entries = []\<rparr>\<rparr> in
     case (if enablePreview normalized \<and> m_previewWindow s3 \<noteq> None
           then new_CMonitor env else None) of
        Some e \<Rightarrow> Returns (Thrown e s3)
      | None \<Rightarrow>
     let s4 = (case m_previewWindow s3 of
                 None \<Rightarrow> s3
               | Some hwnd \<Rightarrow>
                   if enablePreview normalized
                   then s3\<lparr>m_monitor := Some \<lparr>monitor_window = hwnd\<rparr>\<rparr>
                   else s3) in
     case new_CAVIWriter env of
        Some e \<Rightarrow> Returns (Thrown e s4)
      | None \<Rightarrow>
     let s5 = s4\<lparr>m_writer := Some \<lparr>writer_base_path = basePath normalized,
                                     writer_datetime_format = datetimeFormat normalized,
                                     writer_numeric_digits = numericDigits normalized,
                                     writer_start_time = time_now env,
                                     writer_type2 = type2Avi normalized\<rparr>\<rparr>;
         s6 = s5\<lparr>m_options := normalized\<rparr> in
     case Run_result env of
        Some e \<Rightarrow> Returns (Thrown e s6)
      | None \<Rightarrow>
     let s7 = s6\<lparr>m_dvInput := map_option (\<lambda>input. input\<lparr>input_running := True\<rparr>) (m_dvInput s6)\<rparr>;
         s8 = s7\<lparr>m_state := Capturing\<rparr> in
     case AfxBeginThread_result env of
        Inl e \<Rightarrow> Returns (Thrown e s8)
      | Inr started \<Rightarrow>
          if \<not> started
          then and_then (SetError True (s8\<lparr>m_captureThread := None\<rparr>) msg_thread)
                 (\<lambda>s9. and_then (StopCapture_call True s9)
                    (\<lambda>s10. Returns (Returned False s10)))
          else Returns
                 (Completed
                    (s8\<lparr>m_captureThread :=
                          Some \<lparr>m_bAutoDelete = False, thread_suspended = False\<rparr>\<rparr>)))"

text \<open>The message each \<^verbatim>\<open>catch\<close> clause records; the buffer holds 511 characters.\<close>

definition catch_message :: "exn \<Rightarrow> string" where
  "catch_message e =
     (case e of
        CDShowException m \<Rightarrow> m
      | CException m \<Rightarrow> take 511 m
      | UnknownException \<Rightarrow> msg_unknown)"

text \<open>
  A \<^verbatim>\<open>catch\<close> clause (lines 316 to 338) records the message, calls \<^verbatim>\<open>StopCapture\<close> and
  returns false, all inside the scope of the \<^verbatim>\<open>lock_guard\<close> of line 267.
\<close>

definition catch_clause :: "exn \<Rightarrow> engine \<Rightarrow> (bool \<times> engine, engine) call_end" where
  "catch_clause e s =
     and_then (SetError True s (catch_message e))
       (\<lambda>s1. and_then (StopCapture_call True s1) (\<lambda>s2. Returns (False, s2)))"

text \<open>The file system beside the engine a call returns or leaves.\<close>

fun with_files ::
    "filesystem \<Rightarrow> (bool \<times> engine, engine) call_end \<Rightarrow>
       (bool \<times> engine \<times> filesystem, engine \<times> filesystem) call_end" where
  "with_files fs (Returns (r, s)) = Returns (r, s, fs)"
| "with_files fs (Relock s) = Relock (s, fs)"

text \<open>
  \<^verbatim>\<open>StartCapture\<close> holds no lock up to line 266 (the calls of \<^verbatim>\<open>SetError\<close> at line 251,
  of \<^verbatim>\<open>Initialize\<close> and of \<^verbatim>\<open>EnsureDirectories\<close>) and holds \<^verbatim>\<open>m_mutex\<close> from line 267 to
  its end.
\<close>

definition StartCapture ::
    "platform \<Rightarrow> start_env \<Rightarrow> WindvCaptureOptions \<Rightarrow> engine \<times> filesystem \<Rightarrow>
       (bool \<times> engine \<times> filesystem, engine \<times> filesystem) call_end" where
  "StartCapture p env options w =
     (case w of
        (s, fs) \<Rightarrow>
          if m_deviceAnsi s = []
          then with_files fs (and_then (SetError False s msg_no_device) (\<lambda>s1. Returns (False, s1)))
          else (case Initialize (CoInitializeEx_result env) s of
                  Relock s1 \<Rightarrow> Relock (s1, fs)
                | Returns (initialized, s1) \<Rightarrow>
                    if \<not> initialized then Returns (False, s1, fs)
                    else
                      let normalized = Normalize p options in
                      (case EnsureDirectories (AnsiToWide p (basePath normalized)) (s1, fs) of
                         (prepared, s2, fs2) \<Rightarrow>
                           if \<not> prepared then Returns (False, s2, fs2)
                           else if m_state s2 \<noteq> Idle
                             then with_files fs2
                                    (and_then (SetError True s2 msg_already_running)
                                       (\<lambda>s3. Returns (False, s3)))
                           else (case StartCapture_try env normalized s2 of
                                   Relock s3 \<Rightarrow> Relock (s3, fs2)
                                 | Returns (Completed s3) \<Rightarrow> Returns (True, s3, fs2)
                                 | Returns (Returned r s3) \<Rightarrow> Returns (r, s3, fs2)
                                 | Returns (Thrown e s3) \<Rightarrow>
                                     with_files fs2 (catch_clause e s3)))))"

subsection \<open>The consumer loop\<close>

text \<open>
  The loop runs beside the threads that change what it reads, so each iteration takes
  its readings as input: the state the loop head loads, what \<^verbatim>\<open>Get\<close> returns (\<open>None\<close>
  when it returns false, otherwise the entry it wrote to the three variables), the
  queue load read from \<^verbatim>\<open>m_load\<close>, and for either sink whether its \<^verbatim>\<open>HandleFrame\<close> would
  return (\<open>None\<close>) or throw. The result is the list of sink calls made, in order, and
  the way the loop ended; \<open>Waiting\<close> says that the readings ran out with the loop
  still running.
\<close>

record tick =
  observed_state :: State
  get_result :: "dv_frame option"
  observed_load :: int
  preview_throws :: "exn option"
  writer_throws :: "exn option"

datatype sink_call = PreviewCall dv_frame | WriterCall dv_frame

datatype loop_exit = LeftCapturing | SawSentinel | Unhandled exn | NullQueue | Waiting

text \<open>Lines 449 to 460: the calls made for one frame and the exception that escaped.\<close>

definition preview_taken :: "engine \<Rightarrow> tick \<Rightarrow> bool" where
  "preview_taken s t =
     ((m_monitor s \<noteq> None \<and> enablePreview (m_options s))
       \<and> observed_load t < queueSize (m_options s) sdiv 2)"

definition fan_out :: "engine \<Rightarrow> tick \<Rightarrow> dv_frame \<Rightarrow> sink_call list \<times> exn option" where
  "fan_out s t f =
     (case (if preview_taken s t then preview_throws t else None) of
        Some e \<Rightarrow> ([PreviewCall f], Some e)
      | None \<Rightarrow>
          let calls = (if preview_taken s t then [PreviewCall f] else []) in
          if m_writer s \<noteq> None
          then (calls @ [WriterCall f], writer_throws t)
          else (calls, None))"

fun CaptureThread :: "engine \<Rightarrow> tick list \<Rightarrow> sink_call list \<times> loop_exit" where
  "CaptureThread s [] = ([], Waiting)"
| "CaptureThread s (t # ts) =
     (if observed_state t \<noteq> Capturing then ([], LeftCapturing)
      else case m_queue s of
        None \<Rightarrow> ([], NullQueue)
      | Some q \<Rightarrow>
          (case get_result t of
             None \<Rightarrow> CaptureThread s ts
           | Some f \<Rightarrow>
               if frame_data f = None then ([], SawSentinel)
               else (case fan_out s t f of
                       (calls, Some e) \<Rightarrow> (calls, Unhandled e)
                     | (calls, None) \<Rightarrow>
                         (case CaptureThread s ts of
                            (later, how) \<Rightarrow> (calls @ later, how)))))"

text \<open>The frame a sink call hands over.\<close>

fun forwarded_frame :: "sink_call \<Rightarrow> dv_frame" where
  "forwarded_frame (PreviewCall f) = f"
| "forwarded_frame (WriterCall f) = f"


subsection \<open>The exported functions\<close>

text \<open>
  The process holds the engine \<^verbatim>\<open>g_engine\<close>, created on first use, and the host file
  system.
\<close>

record process =
  g_engine :: "engine option"
  files :: filesystem

definition EnsureEngine :: "process \<Rightarrow> engine \<times> process" where
  "EnsureEngine pr =
     (case g_engine pr of
        None \<Rightarrow> (WinDVCaptureEngine, pr\<lparr>g_engine := Some WinDVCaptureEngine\<rparr>)
      | Some e \<Rightarrow> (e, pr))"

definition WindvBridge_StartCapture ::
    "platform \<Rightarrow> start_env \<Rightarrow> WindvCaptureOptions option \<Rightarrow> process \<Rightarrow>
       (int \<times> process, process) call_end" where
  "WindvBridge_StartCapture p env options pr =
     (case options of
        None \<Rightarrow> Returns (- 1, pr)
      | Some opts \<Rightarrow>
          (case EnsureEngine pr of
             (e, pr1) \<Rightarrow>
               (case StartCapture p env opts (e, files pr1) of
                  Returns (ok, e', fs') \<Rightarrow>
                    Returns (if ok then 0 else - 1, pr1\<lparr>g_engine := Some e', files := fs'\<rparr>)
                | Relock (e', fs') \<Rightarrow> Relock (pr1\<lparr>g_engine := Some e', files := fs'\<rparr>))))"

text \<open>The process a call returns or leaves.\<close>

fun process_left :: "(int \<times> process, process) call_end \<Rightarrow> process" where
  "process_left (Returns (r, pr)) = pr"
| "process_left (Relock pr) = pr"

definition WindvBridge_StopCapture :: "process \<Rightarrow> process" where
  "WindvBridge_StopCapture pr =
     (case EnsureEngine pr of
        (e, pr1) \<Rightarrow> pr1\<lparr>g_engine := Some (engine_left (StopCapture_call False e))\<rparr>)"

definition WindvBridge_IsCapturing :: "process \<Rightarrow> int \<times> process" where
  "WindvBridge_IsCapturing pr =
     (case EnsureEngine pr of (e, pr1) \<Rightarrow> (if IsCapturing e then 1 else 0, pr1))"

definition WindvBridge_LastError :: "process \<Rightarrow> string \<times> process" where
  "WindvBridge_LastError pr =
     (case EnsureEngine pr of (e, pr1) \<Rightarrow> (LastError e, pr1))"

text \<open>
  The calls that reach the engine between its construction and any later moment:
  the member functions the exported functions forward to, and the producer callback.
  A run carries, beside the engine and the file system, whether an earlier call
  ended in \<open>Relock\<close>. Such a call never gives \<^verbatim>\<open>m_mutex\<close> back: every later call
  first locks \<^verbatim>\<open>m_mutex\<close> (\<^verbatim>\<open>StartCapture\<close> through \<^verbatim>\<open>SetError\<close> or \<^verbatim>\<open>Initialize\<close>), waits for
  it and changes nothing, except \<^verbatim>\<open>HandleFrame\<close>, which takes no lock.
\<close>

datatype call =
    Call_Initialize int
  | Call_SetDevice int string
  | Call_SetPreviewWindow "nat option"
  | Call_StartCapture start_env WindvCaptureOptions
  | Call_StopCapture
  | Call_Shutdown
  | Call_ReportExternalError string
  | Call_HandleFrame int "8 word list option" int

fun settled :: "filesystem \<Rightarrow> ('r \<times> engine, engine) call_end \<Rightarrow> bool \<times> engine \<times> filesystem" where
  "settled fs (Returns (r, s)) = (False, s, fs)"
| "settled fs (Relock s) = (True, s, fs)"

fun perform_free :: "platform \<Rightarrow> engine \<times> filesystem \<Rightarrow> call \<Rightarrow> bool \<times> engine \<times> filesystem" where
  "perform_free p (s, fs) (Call_Initialize hr) = settled fs (Initialize hr s)"
| "perform_free p (s, fs) (Call_SetDevice hr name) = settled fs (SetDevice p hr name s)"
| "perform_free p (s, fs) (Call_SetPreviewWindow hwnd) = settled fs (SetPreviewWindow hwnd s)"
| "perform_free p (s, fs) (Call_StartCapture env options) =
     (case StartCapture p env options (s, fs) of
        Returns (ok, s', fs') \<Rightarrow> (False, s', fs')
      | Relock (s', fs') \<Rightarrow> (True, s', fs'))"
| "perform_free p (s, fs) Call_StopCapture =
     settled fs (and_then (StopCapture_call False s) (\<lambda>s'. Returns ((), s')))"
| "perform_free p (s, fs) Call_Shutdown = (False, Shutdown s, fs)"
| "perform_free p (s, fs) (Call_ReportExternalError message) =
     settled fs (and_then (ReportExternalError message s) (\<lambda>s'. Returns ((), s')))"
| "perform_free p (s, fs) (Call_HandleFrame duration data len) =
     (False, HandleFrame duration data len s, fs)"

fun perform_locked :: "engine \<times> filesystem \<Rightarrow> call \<Rightarrow> bool \<times> engine \<times> filesystem" where
  "perform_locked (s, fs) (Call_HandleFrame duration data len) =
     (True, HandleFrame duration data len s, fs)"
| "perform_locked (s, fs) c = (True, s, fs)"

definition perform ::
    "platform \<Rightarrow> bool \<times> engine \<times> filesystem \<Rightarrow> call \<Rightarrow> bool \<times> engine \<times> filesystem" where
  "perform p w c = (if fst w then perform_locked (snd w) c else perform_free p (snd w) c)"

definition after_calls :: "platform \<Rightarrow> filesystem \<Rightarrow> call list \<Rightarrow> engine \<times> filesystem" where
  "after_calls p fs calls = snd (foldl (perform p) (False, WinDVCaptureEngine, fs) calls)"

text \<open>Between two calls an idle engine holds no thread.\<close>

definition no_thread_when_idle :: "engine \<Rightarrow> bool" where
  "no_thread_when_idle s = (m_state s = Idle \<longrightarrow> m_captureThread s = None)"

subsection \<open>Example values\<close>

definition example_env :: start_env where
  "example_env =
     \<lparr>CoInitializeEx_result = 0, new_CDVInput = None,
      GetMediaType_result = Inr \<lparr>lSampleSize = 120000\<rparr>, new_CDVQueue = None,
      new_CMonitor = None, new_CAVIWriter = None, Run_result = None,
      AfxBeginThread_result = Inr True, time_now = 0\<rparr>"

definition example_options :: WindvCaptureOptions where
  "example_options =
     \<lparr>output_directory = Some ''out'', file_base_name = Some ''clip'', datetime_format = None,
      numeric_suffix_digits = 0, type2_avi = 1, enable_preview = 1, queue_size = 4\<rparr>"

definition example_normalized :: NormalizedOptions where
  "example_normalized =
     \<lparr>basePath = ''out'' @ [backslash] @ ''clip'', datetimeFormat = ''%Y%m%d_%H%M%S'',
      numericDigits = 0, type2Avi = True, enablePreview = True, queueSize = 4\<rparr>"

text \<open>An engine after \<^verbatim>\<open>SetDevice\<close> and \<^verbatim>\<open>SetPreviewWindow\<close>, and the same engine capturing.\<close>

definition example_idle :: engine where
  "example_idle =
     WinDVCaptureEngine
       \<lparr>m_comInitialized := True, m_deviceWide := ''cam'', m_deviceAnsi := ''cam'',
        m_previewWindow := Some 7\<rparr>"

definition example_capturing :: engine where
  "example_capturing =
     example_idle
       \<lparr>m_state := Capturing,
        m_dvInput := Some \<lparr>input_device = ''cam'', input_running = True\<rparr>,
        m_monitor := Some \<lparr>monitor_window = 7\<rparr>,
        m_queue := Some \<lparr>queue_size_arg = 4, queue_sample_size = 144000, queue_entries = []\<rparr>,
        m_writer := Some \<lparr>writer_base_path = ''out'' @ [backslash] @ ''clip'',
                           writer_datetime_format = ''%Y%m%d_%H%M%S'',
                           writer_numeric_digits = 0, writer_start_time = 0,
                           writer_type2 = True\<rparr>,
        m_captureThread := Some \<lparr>m_bAutoDelete = False, thread_suspended = False\<rparr>,
        m_mediaType := \<lparr>lSampleSize = 144000\<rparr>,
        m_options := example_normalized\<rparr>"

definition example_frame :: "int \<Rightarrow> dv_frame" where
  "example_frame n = \<lparr>frame_duration = n, frame_data = Some [1, 2, 3], frame_len = 3\<rparr>"

definition example_tick :: "dv_frame \<Rightarrow> int \<Rightarrow> tick" where
  "example_tick f load =
     \<lparr>observed_state = Capturing, get_result = Some f, observed_load = load,
      preview_throws = None, writer_throws = None\<rparr>"

definition example_fs :: filesystem where
  "example_fs = \<lparr>nodes = [''out'' \<mapsto> Directory], refused = (\<lambda>d. False), created = []\<rparr>"

definition writer_failure_env :: start_env where
  "writer_failure_env = example_env\<lparr>new_CAVIWriter := Some (CDShowException ''open failed'')\<rparr>"

text \<open>The engine \<open>example_idle\<close> with a capture source, a preview renderer and a queue.\<close>

definition example_leaked :: engine where
  "example_leaked =
     example_idle
       \<lparr>m_dvInput := Some \<lparr>input_device = ''cam'', input_running = False\<rparr>,
        m_monitor := Some \<lparr>monitor_window = 7\<rparr>,
        m_queue := Some \<lparr>queue_size_arg = 4, queue_sample_size = 144000, queue_entries = []\<rparr>,
        m_mediaType := \<lparr>lSampleSize = 144000\<rparr>\<rparr>"

text \<open>
  The engine \<open>example_capturing\<close> without its thread, as a start leaves it when the
  thread cannot be created.
\<close>

definition thread_failure_env :: start_env where
  "thread_failure_env = example_env\<lparr>AfxBeginThread_result := Inr False\<rparr>"

definition example_half_started :: engine where
  "example_half_started = example_capturing\<lparr>m_captureThread := None\<rparr>"

definition new_directory_options :: WindvCaptureOptions where
  "new_directory_options = example_options\<lparr>output_directory := Some ''new''\<rparr>"

definition example_fs_new :: filesystem where
  "example_fs_new =
     \<lparr>nodes = [''out'' \<mapsto> Directory, ''new'' \<mapsto> Directory], refused = (\<lambda>d. False),
      created = [''new'']\<rparr>"

definition preview_failure_tick :: tick where
  "preview_failure_tick =
     (example_tick (example_frame 1) 0)\<lparr>preview_throws := Some UnknownException\<rparr>"

definition writer_failure_tick :: tick where
  "writer_failure_tick =
     (example_tick (example_frame 1) 0)\<lparr>writer_throws := Some UnknownException\<rparr>"


section \<open>Option normalisation\<close>

text \<open>
  C7. Normalisation maps a numeric suffix width that is not positive to 0 (no
  suffix) and a queue capacity that is not positive to the default 120, and keeps
  positive values; an output directory that is given (not null, not empty) and has
  no trailing path separator is extended with a backslash before the file name is
  appended, one that ends in a separator is kept, and a missing or empty one
  contributes nothing; a missing or empty base file name is replaced by
  \<open>capture\<close>; a missing or empty timestamp format is replaced by
  \<open>%Y%m%d_%H%M%S\<close>; the two flags keep their truth value.
\<close>

theorem Normalize_policy:
  fixes p :: platform and options :: WindvCaptureOptions
  defines "n \<equiv> Normalize p options"
  shows "(numeric_suffix_digits options \<le> 0 \<longrightarrow> numericDigits n = 0)
       \<and> (numeric_suffix_digits options > 0 \<longrightarrow> numericDigits n = numeric_suffix_digits options)
       \<and> (queue_size options \<le> 0 \<longrightarrow> queueSize n = 120)
       \<and> (queue_size options > 0 \<longrightarrow> queueSize n = queue_size options)
       \<and> (\<forall>d. output_directory options = Some d \<and> d \<noteq> [] \<and> \<not> has_trailing_separator d \<longrightarrow>
              basePath n = CStringA_of_wide p (d @ [backslash] @ base_name_or_default options))
       \<and> (\<forall>d. output_directory options = Some d \<and> has_trailing_separator d \<longrightarrow>
              basePath n = CStringA_of_wide p (d @ base_name_or_default options))
       \<and> (output_directory options = None \<or> output_directory options = Some [] \<longrightarrow>
              basePath n = CStringA_of_wide p (base_name_or_default options))
       \<and> (datetime_format options = None \<or> datetime_format options = Some [] \<longrightarrow>
              datetimeFormat n = ''%Y%m%d_%H%M%S'')
       \<and> (\<forall>f. datetime_format options = Some f \<and> f \<noteq> [] \<longrightarrow>
              datetimeFormat n = CStringA_of_wide p f)
       \<and> type2Avi n = (type2_avi options \<noteq> 0)
       \<and> enablePreview n = (enable_preview options \<noteq> 0)"
  unfolding n_def Normalize_def NormalizedOptions_default_def has_trailing_separator_def
    base_name_or_default_def Let_def
  by (simp split: option.split)

theorem Normalize_policy_witness:
  "numeric_suffix_digits
      \<lparr>output_directory = Some ''out'', file_base_name = Some [], datetime_format = None,
       numeric_suffix_digits = - 3, type2_avi = 1, enable_preview = 0, queue_size = 0\<rparr> \<le> 0
   \<and> Normalize ascii_platform
      \<lparr>output_directory = Some ''out'', file_base_name = Some [], datetime_format = None,
       numeric_suffix_digits = - 3, type2_avi = 1, enable_preview = 0, queue_size = 0\<rparr>
     = \<lparr>basePath = ''out'' @ [backslash] @ ''capture'', datetimeFormat = ''%Y%m%d_%H%M%S'',
        numericDigits = 0, type2Avi = True, enablePreview = False, queueSize = 120\<rparr>"
  using Normalize_policy [of
      "\<lparr>output_directory = Some ''out'', file_base_name = Some [], datetime_format = None,
        numeric_suffix_digits = - 3, type2_avi = 1, enable_preview = 0, queue_size = 0\<rparr>"
      ascii_platform]
  by (simp add: has_trailing_separator_def base_name_or_default_def ascii_platform_def
      backslash_def slash_def)

section \<open>Directory preparation\<close>

lemma find_last_of_None:
  "find_last_of p cs = None \<longleftrightarrow> (\<forall>j < length p. p ! j \<notin> set cs)"
proof (induction p)
  case Nil
  then show ?case by simp
next
  case (Cons x xs)
  show ?case
  proof (cases "find_last_of xs cs")
    case None
    with Cons show ?thesis
      by (auto simp: nth_Cons split: nat.splits)
  next
    case (Some k)
    with Cons have "\<exists>j < length xs. xs ! j \<in> set cs"
      by auto
    then obtain j where "j < length xs" "xs ! j \<in> set cs"
      by blast
    then have "Suc j < length (x # xs) \<and> (x # xs) ! Suc j \<in> set cs"
      by simp
    with Some show ?thesis
      by (metis find_last_of.simps(2) option.simps(3) option.simps(5))
  qed
qed

lemma find_last_of_Some:
  assumes "find_last_of p cs = Some i"
  shows "i < length p \<and> p ! i \<in> set cs \<and> (\<forall>j. i < j \<and> j < length p \<longrightarrow> p ! j \<notin> set cs)"
  using assms
proof (induction p arbitrary: i)
  case Nil
  then show ?case by simp
next
  case (Cons x xs)
  show ?case
  proof (cases "find_last_of xs cs")
    case None
    with Cons.prems have i: "i = 0" and x: "x \<in> set cs"
      by (auto split: if_splits)
    from None have "\<forall>j < length xs. xs ! j \<notin> set cs"
      by (simp add: find_last_of_None)
    with i x show ?thesis
      by (auto simp: nth_Cons split: nat.splits)
  next
    case (Some k)
    with Cons.prems have i: "i = Suc k"
      by simp
    from Cons.IH [OF Some] i show ?thesis
      by (auto simp: nth_Cons split: nat.splits)
  qed
qed

lemma ancestor_directories_no_separator:
  assumes "find_last_of path separators = None"
  shows "ancestor_directories path = []"
  using assms by (auto simp: ancestor_directories_def find_last_of_None filter_empty_conv)

lemma ancestor_directories_split:
  assumes "find_last_of path separators = Some pos"
  shows "ancestor_directories path =
           ancestor_directories (take pos path) @ (if pos = 0 then [] else [take pos path])"
proof -
  let ?P = "\<lambda>i. path ! i \<in> set separators"
  let ?n = "length path"
  from find_last_of_Some [OF assms]
  have pos: "pos < ?n" and sep: "?P pos" and last: "\<forall>j. pos < j \<and> j < ?n \<longrightarrow> \<not> ?P j"
    by auto
  have after: "filter ?P [Suc pos ..< ?n] = []"
    using last by (auto simp: filter_empty_conv)
  have inner: "map (\<lambda>i. take i path) (filter ?P [1 ..< pos]) = ancestor_directories (take pos path)"
  proof -
    have len: "length (take pos path) = pos"
      using pos by simp
    have "filter ?P [1 ..< pos] = filter (\<lambda>i. take pos path ! i \<in> set separators) [1 ..< pos]"
      by (rule filter_cong) auto
    moreover have "map (\<lambda>i. take i path) (filter ?P [1 ..< pos])
        = map (\<lambda>i. take i (take pos path)) (filter ?P [1 ..< pos])"
      by (rule map_cong) (auto simp: min_def)
    ultimately show ?thesis
      unfolding ancestor_directories_def len by simp
  qed
  show ?thesis
  proof (cases "pos = 0")
    case True
    then have "[1 ..< ?n] = [Suc pos ..< ?n]"
      by simp
    with after True show ?thesis
      by (simp add: ancestor_directories_def)
  next
    case False
    then have "1 \<le> pos"
      by simp
    from upt_add_eq_append [OF this, of "?n - pos"] pos
    have "[1 ..< ?n] = [1 ..< pos] @ [pos ..< ?n]"
      by simp
    moreover have "[pos ..< ?n] = pos # [Suc pos ..< ?n]"
      using pos by (simp add: upt_conv_Cons)
    ultimately have "[1 ..< ?n] = [1 ..< pos] @ [pos] @ [Suc pos ..< ?n]"
      by simp
    then have "filter ?P [1 ..< ?n] = filter ?P [1 ..< pos] @ [pos]"
      using after sep by simp
    then have "ancestor_directories path = map (\<lambda>i. take i path) (filter ?P [1 ..< pos]) @ [take pos path]"
      by (simp add: ancestor_directories_def)
    with inner False show ?thesis
      by simp
  qed
qed


lemma ancestor_directories_shorter:
  assumes "a \<in> set (ancestor_directories p)"
  shows "a \<noteq> [] \<and> proper_prefix a p"
proof -
  from assms obtain i where "1 \<le> i" "i < length p" "a = take i p"
    by (auto simp: ancestor_directories_def)
  then show ?thesis
    by (auto simp: proper_prefix_def min_def)
qed

lemma ancestor_directories_ordered:
  "sorted_wrt proper_prefix (ancestor_directories p)"
proof -
  have "sorted_wrt (<) (filter (\<lambda>i. p ! i \<in> set separators) [1 ..< length p])"
    by (rule sorted_wrt_filter) (rule sorted_wrt_upt)
  then have "sorted_wrt (\<lambda>i j. proper_prefix (take i p) (take j p))
      (filter (\<lambda>i. p ! i \<in> set separators) [1 ..< length p])"
    by (rule sorted_wrt_mono_rel [rotated]) (auto simp: proper_prefix_def min_def)
  then show ?thesis
    by (simp add: ancestor_directories_def sorted_wrt_map)
qed

lemma with_directories_Nil: "with_directories fs [] = fs"
  by (simp add: with_directories_def)

lemma is_directory_with_directories:
  "is_directory (with_directories fs ds) d \<longleftrightarrow> d \<in> set ds \<or> is_directory fs d"
  by (simp add: with_directories_def is_directory_def)

lemma CreateDirectoryW_with_directories:
  assumes "nodes fs d = None" and "d \<notin> set ds" and "parent_exists (with_directories fs ds) d"
    and "\<not> refused fs d"
  shows "CreateDirectoryW (with_directories fs ds) d = Inr (with_directories fs (ds @ [d]))"
  using assms by (auto simp: CreateDirectoryW_def with_directories_def fun_eq_iff)

declare EnsureDirectories.simps [simp del]

lemma EnsureDirectories_missing:
  assumes "parent_closed fs"
    and "\<forall>d \<in> set (ancestor_directories path). nodes fs d \<noteq> Some RegularFile"
    and "\<forall>d \<in> set (ancestor_directories path). \<not> refused fs d"
  shows "EnsureDirectories path (s, fs) = (True, s, with_directories fs (missing_directories fs path))"
  using assms(2,3)
proof (induction "length path" arbitrary: path rule: less_induct)
  case less
  show ?case
  proof (cases "find_last_of path separators")
    case None
    then have "missing_directories fs path = []"
      by (simp add: missing_directories_def ancestor_directories_no_separator)
    with None show ?thesis
      by (subst EnsureDirectories.simps) (simp add: with_directories_Nil)
  next
    case (Some pos)
    let ?d = "take pos path"
    from find_last_of_Some [OF Some] have pos: "pos < length path"
      by simp
    then have nonempty: "path \<noteq> []"
      by auto
    note split = ancestor_directories_split [OF Some]
    show ?thesis
    proof (cases "pos = 0")
      case True
      then have "missing_directories fs path = []"
        using split by (simp add: missing_directories_def ancestor_directories_def)
      with Some True nonempty show ?thesis
        by (subst EnsureDirectories.simps) (simp add: with_directories_Nil)
    next
      case False
      with pos have d: "?d \<noteq> []"
        by auto
      from False split have anc: "ancestor_directories path = ancestor_directories ?d @ [?d]"
        by simp
      show ?thesis
      proof (cases "is_directory fs ?d")
        case True
        with assms(1) have "\<forall>a \<in> set (ancestor_directories ?d). is_directory fs a"
          by (simp add: parent_closed_def)
        with True anc have "missing_directories fs path = []"
          by (simp add: missing_directories_def)
        with Some True nonempty d show ?thesis
          by (subst EnsureDirectories.simps) (simp add: with_directories_Nil)
      next
        case notdir: False
        let ?ms = "missing_directories fs ?d"
        have len: "length ?d < length path"
          using pos by simp
        have IH: "EnsureDirectories ?d (s, fs) = (True, s, with_directories fs ?ms)"
          using less.hyps [OF len] less.prems anc by simp
        have missing: "missing_directories fs path = ?ms @ [?d]"
          using anc notdir by (simp add: missing_directories_def)
        have "nodes fs ?d \<noteq> Some RegularFile"
          using less.prems(1) anc by simp
        with notdir have free: "nodes fs ?d = None"
          by (cases "nodes fs ?d") (auto simp: is_directory_def intro: node.exhaust)
        have fresh: "?d \<notin> set ?ms"
        proof
          assume "?d \<in> set ?ms"
          then have "?d \<in> set (ancestor_directories ?d)"
            by (simp add: missing_directories_def)
          from ancestor_directories_shorter [OF this] show False
            by (simp add: proper_prefix_def)
        qed
        have parent: "parent_exists (with_directories fs ?ms) ?d"
        proof (cases "find_last_of ?d separators")
          case None
          then show ?thesis
            by (simp add: parent_exists_def)
        next
          case inner: (Some q)
          show ?thesis
          proof (cases "q = 0")
            case True
            with inner show ?thesis
              by (simp add: parent_exists_def)
          next
            case False
            with ancestor_directories_split [OF inner]
            have "take q ?d \<in> set (ancestor_directories ?d)"
              by simp
            then have "is_directory (with_directories fs ?ms) (take q ?d)"
              by (auto simp: is_directory_with_directories missing_directories_def)
            with inner show ?thesis
              by (simp add: parent_exists_def)
          qed
        qed
        have "\<not> refused fs ?d"
          using less.prems(2) anc by simp
        from CreateDirectoryW_with_directories [OF free fresh parent this]
        have "CreateDirectoryW (with_directories fs ?ms) ?d = Inr (with_directories fs (?ms @ [?d]))" .
        with Some nonempty d notdir IH missing show ?thesis
          by (subst EnsureDirectories.simps) (simp add: Let_def)
      qed
    qed
  qed
qed


text \<open>
  C8. On a file system in which the directories above an existing directory exist,
  for a target path none of whose ancestor directories is taken by a file or refused
  by the host, \<open>EnsureDirectories\<close> succeeds, leaves the engine alone and creates
  exactly the missing ancestor directories: the log of created directories grows by
  the list of the missing ancestors, which has no repetition and runs from the
  outermost to the innermost (each a proper prefix of the next). Ancestors that
  exist are not touched and do not make the call fail. Afterwards every ancestor
  is a directory, and a second call on the resulting file system succeeds and
  changes nothing.
\<close>

theorem EnsureDirectories_creates_missing:
  assumes "parent_closed fs"
    and "\<forall>d \<in> set (ancestor_directories path). nodes fs d \<noteq> Some RegularFile"
    and "\<forall>d \<in> set (ancestor_directories path). \<not> refused fs d"
  shows "EnsureDirectories path (s, fs) = (True, s, with_directories fs (missing_directories fs path))
       \<and> distinct (missing_directories fs path)
       \<and> sorted_wrt proper_prefix (missing_directories fs path)
       \<and> (\<forall>d \<in> set (ancestor_directories path).
            is_directory (with_directories fs (missing_directories fs path)) d)
       \<and> EnsureDirectories path (s', with_directories fs (missing_directories fs path))
           = (True, s', with_directories fs (missing_directories fs path))"
proof -
  let ?fs' = "with_directories fs (missing_directories fs path)"
  have ordered: "sorted_wrt proper_prefix (missing_directories fs path)"
    unfolding missing_directories_def
    by (rule sorted_wrt_filter) (rule ancestor_directories_ordered)
  have "proper_prefix a b \<Longrightarrow> a \<noteq> b" for a b
    by (auto simp: proper_prefix_def)
  with ordered have "distinct (missing_directories fs path)"
    by (metis (mono_tags, lifting) distinct_conv_nth length_map nth_map sorted_wrt_iff_nth_less
        nat_neq_iff)
  moreover have all: "\<forall>d \<in> set (ancestor_directories path). is_directory ?fs' d"
    by (auto simp: is_directory_with_directories missing_directories_def)
  moreover have "EnsureDirectories path (s', ?fs') = (True, s', ?fs')"
  proof (cases "find_last_of path separators")
    case None
    then show ?thesis
      by (subst EnsureDirectories.simps) simp
  next
    case (Some pos)
    show ?thesis
    proof (cases "pos = 0")
      case True
      with Some show ?thesis
        by (subst EnsureDirectories.simps) simp
    next
      case False
      with ancestor_directories_split [OF Some] all
      have "is_directory ?fs' (take pos path)"
        by simp
      with Some show ?thesis
        by (subst EnsureDirectories.simps) (simp add: Let_def)
    qed
  qed
  ultimately show ?thesis
    using EnsureDirectories_missing [OF assms] ordered by simp
qed


theorem EnsureDirectories_creates_missing_witness:
  "parent_closed example_fs
   \<and> missing_directories example_fs ''out/a/b/clip'' = [''out/a'', ''out/a/b'']
   \<and> EnsureDirectories ''out/a/b/clip'' (WinDVCaptureEngine, example_fs)
       = (True, WinDVCaptureEngine, with_directories example_fs [''out/a'', ''out/a/b''])
   \<and> created (with_directories example_fs [''out/a'', ''out/a/b'']) = [''out/a'', ''out/a/b'']"
proof -
  have anc: "ancestor_directories ''out/a/b/clip'' = [''out'', ''out/a'', ''out/a/b'']"
    by code_simp
  have "ancestor_directories ''out'' = []"
    by code_simp
  then have closed: "parent_closed example_fs"
    by (auto simp: parent_closed_def example_fs_def is_directory_def split: if_splits)
  have missing: "missing_directories example_fs ''out/a/b/clip'' = [''out/a'', ''out/a/b'']"
    by (simp add: missing_directories_def anc example_fs_def is_directory_def)
  have no_file:
    "\<forall>d \<in> set (ancestor_directories ''out/a/b/clip''). nodes example_fs d \<noteq> Some RegularFile"
    by (simp add: anc example_fs_def)
  have not_refused:
    "\<forall>d \<in> set (ancestor_directories ''out/a/b/clip''). \<not> refused example_fs d"
    by (simp add: example_fs_def)
  from EnsureDirectories_creates_missing [OF closed no_file not_refused, of WinDVCaptureEngine]
    missing closed
  show ?thesis
    by (simp add: with_directories_def example_fs_def)
qed

section \<open>Stopping\<close>

lemma EnsureDirectories_engine:
  "\<exists>ok fs1. \<forall>s. EnsureDirectories path (s, fs)
      = (ok, (if ok then s else s\<lparr>m_lastError := msg_directory\<rparr>), fs1)"
proof (induction "length path" arbitrary: path rule: less_induct)
  case less
  show ?case
  proof (cases "find_last_of path separators")
    case None
    then have "\<forall>s. EnsureDirectories path (s, fs)
        = (True, (if True then s else s\<lparr>m_lastError := msg_directory\<rparr>), fs)"
      by (subst EnsureDirectories.simps) simp
    then show ?thesis
      by blast
  next
    case (Some pos)
    let ?d = "take pos path"
    from find_last_of_Some [OF Some] have pos: "pos < length path"
      by simp
    show ?thesis
    proof (cases "?d = [] \<or> is_directory fs ?d")
      case True
      with Some have "\<forall>s. EnsureDirectories path (s, fs)
          = (True, (if True then s else s\<lparr>m_lastError := msg_directory\<rparr>), fs)"
        by (subst EnsureDirectories.simps) (auto simp: Let_def)
      then show ?thesis
        by blast
    next
      case False
      from pos have "length ?d < length path"
        by simp
      from less.hyps [OF this] obtain ok1 fs1 where
        IH: "\<And>s. EnsureDirectories ?d (s, fs)
               = (ok1, (if ok1 then s else s\<lparr>m_lastError := msg_directory\<rparr>), fs1)"
        by blast
      from pos have nonempty: "path \<noteq> []"
        by auto
      show ?thesis
      proof (cases ok1)
        case failed: False
        with Some False nonempty IH
        have "\<forall>s. EnsureDirectories path (s, fs)
            = (False, (if False then s else s\<lparr>m_lastError := msg_directory\<rparr>), fs1)"
          by (subst EnsureDirectories.simps) (simp add: Let_def)
        then show ?thesis
          by blast
      next
        case True
        show ?thesis
        proof (cases "CreateDirectoryW fs1 ?d")
          case (Inr fs2)
          with Some False nonempty IH True
          have "\<forall>s. EnsureDirectories path (s, fs)
              = (True, (if True then s else s\<lparr>m_lastError := msg_directory\<rparr>), fs2)"
            by (subst EnsureDirectories.simps) (simp add: Let_def)
          then show ?thesis
            by blast
        next
          case (Inl err)
          with Some False nonempty IH True
          have "\<forall>s. EnsureDirectories path (s, fs)
              = (err = ERROR_ALREADY_EXISTS,
                 (if err = ERROR_ALREADY_EXISTS then s else s\<lparr>m_lastError := msg_directory\<rparr>),
                 fs1)"
            by (subst EnsureDirectories.simps) (simp add: Let_def SetError_def)
          then show ?thesis
            by blast
        qed
      qed
    qed
  qed
qed

lemma EnsureDirectories_cases:
  obtains fs1 where "EnsureDirectories path (s, fs) = (True, s, fs1)"
  | fs1 where "EnsureDirectories path (s, fs) = (False, s\<lparr>m_lastError := msg_directory\<rparr>, fs1)"
  using EnsureDirectories_engine [of path fs] by (metis (full_types))

lemma StopCapture_state [simp]: "m_state (StopCapture s) = Idle"
  by (simp add: StopCapture_def Let_def split: option.split)

lemma StopCapture_Idle: "m_state s = Idle \<Longrightarrow> StopCapture s = s"
  by (simp add: StopCapture_def)

lemma StopCapture_teardown:
  assumes "m_state s \<noteq> Idle"
  shows "m_captureThread (StopCapture s) = None \<and> m_dvInput (StopCapture s) = None
       \<and> m_monitor (StopCapture s) = None \<and> m_writer (StopCapture s) = None
       \<and> m_queue (StopCapture s) = None"
  using assms by (simp add: StopCapture_def Let_def split: option.split)

lemma StopCapture_no_thread:
  "no_thread_when_idle s \<Longrightarrow> m_captureThread (StopCapture s) = None"
  by (cases "m_state s = Idle")
    (simp_all add: StopCapture_Idle StopCapture_teardown no_thread_when_idle_def)

text \<open>Inside the lock scope of \<open>StartCapture\<close> neither call returns.\<close>

lemma held_calls [simp]:
  "SetError True s message = Relock s" "StopCapture_call True s = Relock s"
  "catch_clause e s = Relock s"
  by (simp_all add: SetError_def StopCapture_call_def catch_clause_def)

lemma free_calls [simp]:
  "SetError False s message = Returns (s\<lparr>m_lastError := message\<rparr>)"
  "StopCapture_call False s = Returns (StopCapture s)"
  by (simp_all add: SetError_def StopCapture_call_def)

lemma StartCapture_try_thread:
  assumes "m_captureThread s = None"
  shows "case StartCapture_try env n s of
           Returns (Completed s') \<Rightarrow> m_state s' = Capturing
         | Returns (Returned r s') \<Rightarrow> False
         | Returns (Thrown e s') \<Rightarrow> m_captureThread s' = None
         | Relock s' \<Rightarrow> m_captureThread s' = None"
  using assms
  by (auto simp: StartCapture_try_def Let_def split: option.split sum.split)

lemma Initialize_thread:
  "case Initialize hr s of
     Returns (ok, s') \<Rightarrow> m_state s' = m_state s \<and> m_captureThread s' = m_captureThread s
   | Relock s' \<Rightarrow> s' = s"
  by (simp add: Initialize_def)

lemma StartCapture_no_thread_when_idle:
  assumes "no_thread_when_idle s"
  shows "case StartCapture p env options (s, fs) of
           Returns (ok, s', fs') \<Rightarrow> no_thread_when_idle s'
         | Relock (s', fs') \<Rightarrow> no_thread_when_idle s'"
proof (cases "m_deviceAnsi s = []")
  case True
  with assms show ?thesis
    by (simp add: StartCapture_def no_thread_when_idle_def)
next
  case device: False
  show ?thesis
  proof (cases "Initialize (CoInitializeEx_result env) s")
    case (Relock s1)
    with Initialize_thread [where hr = "CoInitializeEx_result env" and s = s] device assms show ?thesis
      by (simp add: StartCapture_def)
  next
    case (Returns r)
    then obtain initialized s1 where
      init: "Initialize (CoInitializeEx_result env) s = Returns (initialized, s1)"
      by (cases r) simp
    with Initialize_thread [where hr = "CoInitializeEx_result env" and s = s] assms
    have s1: "no_thread_when_idle s1"
      by (simp add: no_thread_when_idle_def)
    let ?n = "Normalize p options"
    let ?path = "AnsiToWide p (basePath ?n)"
    show ?thesis
    proof (cases rule: EnsureDirectories_cases [of ?path s1 fs])
      case (1 fs1)
      show ?thesis
      proof (cases "m_state s1 = Idle")
        case True
        with s1 have thread: "m_captureThread s1 = None"
          by (simp add: no_thread_when_idle_def)
        from StartCapture_try_thread [OF thread, of env ?n] 1 init device True thread
        show ?thesis
          by (auto simp: StartCapture_def Let_def no_thread_when_idle_def
              split: call_end.splits try_result.splits)
      next
        case False
        with 1 init device s1 show ?thesis
          by (simp add: StartCapture_def Let_def)
      qed
    next
      case (2 fs1)
      with init device s1 show ?thesis
        by (auto simp: StartCapture_def Let_def no_thread_when_idle_def)
    qed
  qed
qed

lemma perform_free_no_thread_when_idle:
  assumes "no_thread_when_idle s"
  shows "no_thread_when_idle (fst (snd (perform_free p (s, fs) c)))"
proof (cases c)
  case (Call_StartCapture env options)
  with StartCapture_no_thread_when_idle [OF assms, of p env options fs] show ?thesis
    by (auto split: call_end.splits)
next
  case Call_StopCapture
  with StopCapture_no_thread [OF assms] show ?thesis
    by (simp add: no_thread_when_idle_def)
next
  case Call_Shutdown
  with StopCapture_no_thread [OF assms] show ?thesis
    by (simp add: no_thread_when_idle_def Shutdown_def Let_def)
qed (use assms in \<open>auto simp: no_thread_when_idle_def Initialize_def SetDevice_def
      SetPreviewWindow_def ReportExternalError_def HandleFrame_def
      split: option.splits\<close>)

lemma perform_locked_no_thread_when_idle:
  assumes "no_thread_when_idle s"
  shows "no_thread_when_idle (fst (snd (perform_locked (s, fs) c)))"
  using assms
  by (cases c) (auto simp: no_thread_when_idle_def HandleFrame_def split: option.splits)

lemma perform_no_thread_when_idle:
  assumes "no_thread_when_idle (fst (snd w))"
  shows "no_thread_when_idle (fst (snd (perform p w c)))"
proof -
  obtain held s fs where w: "w = (held, s, fs)"
    by (cases w)
  with assms perform_free_no_thread_when_idle [of s p fs c]
    perform_locked_no_thread_when_idle [of s fs c]
  show ?thesis
    by (simp add: perform_def)
qed

lemma after_calls_no_thread_when_idle:
  "no_thread_when_idle (fst (after_calls p fs calls))"
proof -
  have "no_thread_when_idle (fst (snd (foldl (perform p) (False, WinDVCaptureEngine, fs) calls)))"
  proof (induction calls rule: rev_induct)
    case Nil
    show ?case
      by (simp add: no_thread_when_idle_def WinDVCaptureEngine_def)
  next
    case (snoc c calls)
    from perform_no_thread_when_idle [OF snoc.IH] show ?case
      by simp
  qed
  then show ?thesis
    by (simp add: after_calls_def)
qed

text \<open>A run of the example: configure, then start.\<close>

lemma example_Normalize: "Normalize ascii_platform example_options = example_normalized"
  by (simp add: Normalize_def example_options_def ascii_platform_def NormalizedOptions_default_def
      example_normalized_def backslash_def slash_def)

lemma example_EnsureDirectories:
  "EnsureDirectories (AnsiToWide ascii_platform (basePath example_normalized)) (s, example_fs)
     = (True, s, example_fs)"
  by (subst EnsureDirectories.simps)
    (simp add: AnsiToWide_def ascii_platform_def example_normalized_def separators_def
      backslash_def slash_def is_directory_def example_fs_def)

lemma example_idle_facts:
  "m_deviceAnsi example_idle = ''cam''" "m_state example_idle = Idle"
  "Initialize hr example_idle = Returns (True, example_idle)"
  by (simp_all add: example_idle_def WinDVCaptureEngine_def Initialize_def)

lemma example_capturing_facts:
  "m_deviceAnsi example_capturing = ''cam''" "m_state example_capturing = Capturing"
  "Initialize hr example_capturing = Returns (True, example_capturing)"
  by (simp_all add: example_capturing_def example_idle_def WinDVCaptureEngine_def Initialize_def)

lemma example_StartCapture_try:
  "StartCapture_try example_env example_normalized example_idle
     = Returns (Completed example_capturing)"
  by (simp add: StartCapture_try_def Let_def example_idle_def example_capturing_def
      example_env_def WinDVCaptureEngine_def example_normalized_def)

lemma example_StartCapture:
  "StartCapture ascii_platform example_env example_options (example_idle, example_fs)
     = Returns (True, example_capturing, example_fs)"
  by (simp add: StartCapture_def example_Normalize example_EnsureDirectories
      example_idle_facts example_StartCapture_try)

lemma example_run:
  "after_calls ascii_platform example_fs
     [Call_Initialize 0, Call_SetDevice 0 ''cam'', Call_SetPreviewWindow (Some 7),
      Call_StartCapture example_env example_options] = (example_capturing, example_fs)"
proof -
  have "foldl (perform ascii_platform) (False, WinDVCaptureEngine, example_fs)
     [Call_Initialize 0, Call_SetDevice 0 ''cam'', Call_SetPreviewWindow (Some 7)]
      = (False, example_idle, example_fs)"
    by (simp add: perform_def Initialize_def SetDevice_def SetPreviewWindow_def FAILED_def
        WinDVCaptureEngine_def example_idle_def ascii_platform_def)
  then show ?thesis
    by (simp add: after_calls_def perform_def example_StartCapture)
qed

text \<open>
  C3. \<open>StopCapture\<close> on an idle engine changes nothing (state, collaborators and
  error slot included). Whatever the engine was, after \<open>StopCapture\<close> the state is
  \<open>Idle\<close> and \<open>IsCapturing\<close> is false; a call that found the engine not idle leaves no
  thread handle; and for every engine \<open>s\<close> that a sequence of calls produces from the
  constructor, no thread handle remains after \<open>StopCapture\<close>.
\<close>

theorem StopCapture_leaves_idle:
  assumes "after_calls p fs calls = (s, fs')"
  shows "(m_state t = Idle \<longrightarrow> StopCapture t = t)
       \<and> m_state (StopCapture t) = Idle
       \<and> \<not> IsCapturing (StopCapture t)
       \<and> (m_state t \<noteq> Idle \<longrightarrow> m_captureThread (StopCapture t) = None)
       \<and> m_captureThread (StopCapture s) = None"
proof -
  from after_calls_no_thread_when_idle [of p fs calls] assms
  have "no_thread_when_idle s"
    by simp
  then show ?thesis
    by (simp add: StopCapture_Idle StopCapture_teardown StopCapture_no_thread IsCapturing_def)
qed

theorem StopCapture_leaves_idle_witness:
  "after_calls ascii_platform example_fs
     [Call_Initialize 0, Call_SetDevice 0 ''cam'', Call_SetPreviewWindow (Some 7),
      Call_StartCapture example_env example_options] = (example_capturing, example_fs)
   \<and> m_state WinDVCaptureEngine = Idle
   \<and> StopCapture WinDVCaptureEngine = WinDVCaptureEngine
   \<and> m_state example_capturing \<noteq> Idle
   \<and> m_captureThread example_capturing \<noteq> None
   \<and> m_state (StopCapture example_capturing) = Idle
   \<and> \<not> IsCapturing (StopCapture example_capturing)
   \<and> m_captureThread (StopCapture example_capturing) = None"
  using StopCapture_leaves_idle [OF example_run, of WinDVCaptureEngine]
    StopCapture_leaves_idle [OF example_run, of example_capturing] example_run
  by (simp add: WinDVCaptureEngine_def example_capturing_def example_idle_def)

section \<open>Starting\<close>

text \<open>
  A start that returns failure failed one of the checks made before the lock of
  line 267: it leaves the state and every collaborator handle as they were. The
  \<^verbatim>\<open>try\<close> block never returns from inside.
\<close>

lemma StartCapture_try_no_return_inside:
  "StartCapture_try env n s \<noteq> Returns (Returned r s')"
  by (simp add: StartCapture_try_def Let_def split: option.split sum.split)

lemma StartCapture_returned_failure:
  assumes "StartCapture p env options (s, fs) = Returns (False, s', fs')"
  shows "m_state s' = m_state s \<and> m_dvInput s' = m_dvInput s \<and> m_monitor s' = m_monitor s
       \<and> m_queue s' = m_queue s \<and> m_writer s' = m_writer s
       \<and> m_captureThread s' = m_captureThread s
       \<and> m_lastError s' \<in> {msg_no_device, msg_directory}"
proof (cases "m_deviceAnsi s = []")
  case True
  with assms show ?thesis
    by (auto simp: StartCapture_def)
next
  case device: False
  show ?thesis
  proof (cases "Initialize (CoInitializeEx_result env) s")
    case (Relock s1)
    with assms device show ?thesis
      by (simp add: StartCapture_def)
  next
    case (Returns r)
    then obtain s1 where init: "Initialize (CoInitializeEx_result env) s = Returns (True, s1)"
      and s1: "s1 = s \<or> s1 = s\<lparr>m_comInitialized := True\<rparr>"
      by (cases r) (auto simp: Initialize_def split: if_splits)
    let ?n = "Normalize p options"
    show ?thesis
    proof (cases rule: EnsureDirectories_cases [of "AnsiToWide p (basePath ?n)" s1 fs])
      case (1 fs1)
      with assms device init StartCapture_try_no_return_inside [of env ?n s1] show ?thesis
        by (auto simp: StartCapture_def Let_def split: if_splits call_end.splits try_result.splits)
    next
      case (2 fs1)
      with assms device init s1 show ?thesis
        by (auto simp: StartCapture_def Let_def)
    qed
  qed
qed

text \<open>
  C1. The claim is that a \<open>StartCapture\<close> that fails after it began to construct
  collaborators destroys them and returns failure with the state \<open>Idle\<close>. In the
  code every such failure leads to a call of \<open>SetError\<close> inside the lock scope of
  line 267, which locks \<^verbatim>\<open>m_mutex\<close> again and does not return. When the writer's
  constructor throws, the call ends there with the state \<open>Idle\<close>, no error recorded,
  and the capture source, the preview renderer and the queue in place. When the
  thread cannot be created, it ends with the state \<open>Capturing\<close>, the capture source
  running, every collaborator in place and no thread.
\<close>

theorem StartCapture_failure_keeps_collaborators:
  "StartCapture ascii_platform writer_failure_env example_options (example_idle, example_fs)
     = Relock (example_leaked, example_fs)
   \<and> m_state example_leaked = Idle
   \<and> m_lastError example_leaked = []
   \<and> m_dvInput example_leaked = Some \<lparr>input_device = ''cam'', input_running = False\<rparr>
   \<and> m_monitor example_leaked = Some \<lparr>monitor_window = 7\<rparr>
   \<and> m_queue example_leaked
       = Some \<lparr>queue_size_arg = 4, queue_sample_size = 144000, queue_entries = []\<rparr>
   \<and> StartCapture ascii_platform thread_failure_env example_options (example_idle, example_fs)
       = Relock (example_half_started, example_fs)
   \<and> m_state example_half_started = Capturing
   \<and> m_captureThread example_half_started = None
   \<and> m_dvInput example_half_started = Some \<lparr>input_device = ''cam'', input_running = True\<rparr>"
proof -
  have "StartCapture_try writer_failure_env example_normalized example_idle
      = Returns (Thrown (CDShowException ''open failed'') example_leaked)"
    by (simp add: StartCapture_try_def Let_def example_idle_def example_leaked_def
        writer_failure_env_def example_env_def WinDVCaptureEngine_def example_normalized_def)
  moreover have "StartCapture_try thread_failure_env example_normalized example_idle
      = Relock example_half_started"
    by (simp add: StartCapture_try_def Let_def example_idle_def example_half_started_def
        example_capturing_def thread_failure_env_def example_env_def WinDVCaptureEngine_def
        example_normalized_def)
  moreover have "CoInitializeEx_result writer_failure_env = 0"
    "CoInitializeEx_result thread_failure_env = 0"
    by (simp_all add: writer_failure_env_def thread_failure_env_def example_env_def)
  ultimately have
    "StartCapture ascii_platform writer_failure_env example_options (example_idle, example_fs)
       = Relock (example_leaked, example_fs)"
    "StartCapture ascii_platform thread_failure_env example_options (example_idle, example_fs)
       = Relock (example_half_started, example_fs)"
    by (simp_all add: StartCapture_def example_Normalize example_EnsureDirectories
        example_idle_facts)
  then show ?thesis
    by (simp add: example_leaked_def example_half_started_def example_capturing_def
        example_idle_def WinDVCaptureEngine_def)
qed

text \<open>
  On an engine that is not idle, with a device configured and initialisation done,
  a start whose directory preparation succeeds does not return.
\<close>

lemma StartCapture_while_running_relocks:
  assumes "m_state s \<noteq> Idle" and "m_deviceAnsi s \<noteq> []" and "m_comInitialized s"
  shows "StartCapture p env options (s, fs) =
           (case EnsureDirectories (AnsiToWide p (basePath (Normalize p options))) (s, fs) of
              (prepared, s2, fs2) \<Rightarrow>
                if prepared then Relock (s, fs2) else Returns (False, s2, fs2))"
proof (cases rule: EnsureDirectories_cases
    [of "AnsiToWide p (basePath (Normalize p options))" s fs])
  case (1 fs1)
  with assms show ?thesis
    by (simp add: StartCapture_def Initialize_def Let_def)
next
  case (2 fs1)
  with assms show ?thesis
    by (simp add: StartCapture_def Initialize_def Let_def)
qed

lemma new_directory_prepare:
  "EnsureDirectories (AnsiToWide ascii_platform (basePath (Normalize ascii_platform new_directory_options)))
      (s, example_fs) = (True, s, example_fs_new)"
proof -
  have inner: "EnsureDirectories ''new'' (s, example_fs) = (True, s, example_fs)"
    by (subst EnsureDirectories.simps) (simp add: separators_def backslash_def slash_def)
  have make: "CreateDirectoryW example_fs ''new'' = Inr example_fs_new"
    by (simp add: CreateDirectoryW_def parent_exists_def separators_def backslash_def slash_def
        example_fs_def example_fs_new_def)
  have "\<not> is_directory example_fs ''new''"
    by (simp add: is_directory_def example_fs_def)
  with inner make show ?thesis
    by (subst EnsureDirectories.simps)
      (simp add: Normalize_def new_directory_options_def example_options_def ascii_platform_def
        NormalizedOptions_default_def AnsiToWide_def separators_def backslash_def slash_def)
qed

text \<open>
  C2. The claim is that \<open>StartCapture\<close> on an engine that is not idle returns failure,
  records that a capture is running and changes nothing, the file system
  included. In the code the call prepares the output directory first and then,
  inside the lock scope of line 267, calls \<open>SetError\<close>, which locks \<^verbatim>\<open>m_mutex\<close> again
  and does not return. On the capturing example the call never returns and records
  nothing; with the output directory \<open>new\<close>, which did not exist, it has created
  that directory.
\<close>

theorem StartCapture_while_running_never_returns:
  "m_state example_capturing \<noteq> Idle
   \<and> StartCapture ascii_platform example_env example_options (example_capturing, example_fs)
       = Relock (example_capturing, example_fs)
   \<and> StartCapture ascii_platform example_env new_directory_options (example_capturing, example_fs)
       = Relock (example_capturing, example_fs_new)
   \<and> \<not> is_directory example_fs ''new''
   \<and> is_directory example_fs_new ''new''
   \<and> created example_fs = []
   \<and> created example_fs_new = [''new'']"
proof -
  have "StartCapture ascii_platform example_env example_options (example_capturing, example_fs)
       = Relock (example_capturing, example_fs)"
    by (simp add: StartCapture_def example_capturing_facts example_Normalize
        example_EnsureDirectories)
  moreover have
    "StartCapture ascii_platform example_env new_directory_options (example_capturing, example_fs)
       = Relock (example_capturing, example_fs_new)"
    by (simp add: StartCapture_def example_capturing_facts new_directory_prepare)
  ultimately show ?thesis
    by (simp add: example_capturing_facts is_directory_def example_fs_new_def example_fs_def)
qed

section \<open>The producer callback and the null options pointer\<close>

text \<open>
  C10. A frame that \<open>HandleFrame\<close> receives while the engine has no queue is dropped:
  the engine, its error slot included, is returned as it was.
\<close>

theorem HandleFrame_without_queue:
  assumes "m_queue s = None"
  shows "HandleFrame duration data len s = s"
  using assms by (simp add: HandleFrame_def)

theorem HandleFrame_without_queue_witness:
  "m_queue WinDVCaptureEngine = None
   \<and> HandleFrame 400000 (Some [1, 2, 3]) 3 WinDVCaptureEngine = WinDVCaptureEngine"
proof -
  have none: "m_queue WinDVCaptureEngine = None"
    by (simp add: WinDVCaptureEngine_def)
  from HandleFrame_without_queue [OF none] none show ?thesis
    by simp
qed

text \<open>
  C9. \<open>WindvBridge_StartCapture\<close> with a null options pointer returns \<open>-1\<close> and leaves
  the process as it was (the engine is not even created), so \<open>WindvBridge_LastError\<close>
  afterwards returns what it would have returned before.
\<close>

theorem WindvBridge_StartCapture_null:
  "WindvBridge_StartCapture p env None pr = Returns (- 1, pr)
   \<and> fst (WindvBridge_LastError (process_left (WindvBridge_StartCapture p env None pr)))
       = fst (WindvBridge_LastError pr)"
  by (simp add: WindvBridge_StartCapture_def)
section \<open>The consumer loop\<close>


lemma fan_out_frames:
  "fan_out s t f = (calls, r) \<Longrightarrow> c \<in> set calls \<Longrightarrow> forwarded_frame c = f"
  by (auto simp: fan_out_def Let_def split: option.splits if_splits)

lemma CaptureThread_forwards_data:
  "c \<in> set (fst (CaptureThread s ts)) \<Longrightarrow> frame_data (forwarded_frame c) \<noteq> None"
proof (induction ts)
  case Nil
  then show ?case by simp
next
  case (Cons t ts)
  show ?case
  proof (cases "get_result t")
    case None
    with Cons show ?thesis
      by (auto split: if_splits option.splits)
  next
    case (Some f)
    obtain calls r where fan: "fan_out s t f = (calls, r)"
      by (cases "fan_out s t f")
    obtain later how where rest: "CaptureThread s ts = (later, how)"
      by (cases "CaptureThread s ts")
    from Cons.prems Some fan rest
    have "frame_data f \<noteq> None \<and> (c \<in> set calls \<or> c \<in> set later)"
      by (auto split: if_splits option.splits)
    with Cons.IH rest fan_out_frames [OF fan] show ?thesis
      by auto
  qed
qed

text \<open>
  C4. Every frame the loop hands to a sink has a data pointer, so the sentinel,
  which has none, is never handed to the preview or to the writer; and an iteration
  that dequeues an entry without data ends the loop there with no sink call.
\<close>

theorem CaptureThread_sentinel_not_forwarded:
  "(\<forall>c \<in> set (fst (CaptureThread s ts)). frame_data (forwarded_frame c) \<noteq> None)
   \<and> frame_data sentinel = None
   \<and> (observed_state t = Capturing \<and> m_queue s \<noteq> None \<and> get_result t = Some f
        \<and> frame_data f = None \<longrightarrow> CaptureThread s (t # ts) = ([], SawSentinel))"
  by (auto simp: sentinel_def dest: CaptureThread_forwards_data)

theorem CaptureThread_sentinel_not_forwarded_witness:
  "CaptureThread example_capturing
      [example_tick (example_frame 1) 0, example_tick sentinel 0, example_tick (example_frame 2) 0]
     = ([PreviewCall (example_frame 1), WriterCall (example_frame 1)], SawSentinel)
   \<and> frame_data (forwarded_frame (WriterCall (example_frame 1))) \<noteq> None
   \<and> observed_state (example_tick sentinel 0) = Capturing
   \<and> m_queue example_capturing \<noteq> None
   \<and> get_result (example_tick sentinel 0) = Some sentinel
   \<and> CaptureThread example_capturing [example_tick sentinel 0, example_tick (example_frame 2) 0]
       = ([], SawSentinel)"
proof -
  have run: "CaptureThread example_capturing
      [example_tick (example_frame 1) 0, example_tick sentinel 0, example_tick (example_frame 2) 0]
     = ([PreviewCall (example_frame 1), WriterCall (example_frame 1)], SawSentinel)"
    by (simp add: example_capturing_def example_idle_def WinDVCaptureEngine_def example_tick_def
        example_frame_def sentinel_def fan_out_def preview_taken_def example_normalized_def
        signed_divide_int_def)
  from CaptureThread_sentinel_not_forwarded
    [of example_capturing
      "[example_tick sentinel 0, example_tick (example_frame 2) 0]"
      "example_tick sentinel 0" sentinel]
    CaptureThread_sentinel_not_forwarded
    [of example_capturing
      "[example_tick (example_frame 1) 0, example_tick sentinel 0, example_tick (example_frame 2) 0]"
      "example_tick sentinel 0" sentinel]
    run
  show ?thesis
    by (simp add: example_capturing_def example_idle_def WinDVCaptureEngine_def example_tick_def)
qed




text \<open>
  C6, as stated, fails: the loop has no exception handler. When the preview sink
  throws on the first frame, the writer is not called for that frame, the exception
  leaves the loop, and the second frame reaches no sink.
\<close>

theorem CaptureThread_preview_exception_skips_writer:
  "m_writer example_capturing \<noteq> None
   \<and> CaptureThread example_capturing [preview_failure_tick, example_tick (example_frame 2) 0]
       = ([PreviewCall (example_frame 1)], Unhandled UnknownException)
   \<and> WriterCall (example_frame 1)
       \<notin> set (fst (CaptureThread example_capturing
                      [preview_failure_tick, example_tick (example_frame 2) 0]))
   \<and> WriterCall (example_frame 2)
       \<notin> set (fst (CaptureThread example_capturing
                      [preview_failure_tick, example_tick (example_frame 2) 0]))"
  by (simp add: example_capturing_def example_idle_def WinDVCaptureEngine_def example_tick_def
      preview_failure_tick_def example_frame_def fan_out_def preview_taken_def
      example_normalized_def signed_divide_int_def)

text \<open>
  C6, amended. For a frame the loop processes: when the preview is due and its sink
  throws, the loop ends with that exception after the preview call, and the writer
  is not called; when the preview (if due) returns and the writer throws, the loop
  ends with that exception after the writer call, the preview delivery already
  made; when no sink throws, both deliveries are made and the loop goes on with
  the next iteration.
\<close>

theorem CaptureThread_sink_exception:
  assumes "observed_state t = Capturing" and "m_queue s \<noteq> None"
    and "get_result t = Some f" and "frame_data f \<noteq> None"
  shows "(preview_taken s t \<and> preview_throws t = Some e \<longrightarrow>
            CaptureThread s (t # ts) = ([PreviewCall f], Unhandled e))
       \<and> ((preview_taken s t \<longrightarrow> preview_throws t = None) \<and> m_writer s \<noteq> None
            \<and> writer_throws t = Some e \<longrightarrow>
            CaptureThread s (t # ts)
              = ((if preview_taken s t then [PreviewCall f] else []) @ [WriterCall f], Unhandled e))
       \<and> ((preview_taken s t \<longrightarrow> preview_throws t = None)
            \<and> (m_writer s \<noteq> None \<longrightarrow> writer_throws t = None) \<longrightarrow>
            CaptureThread s (t # ts)
              = ((if preview_taken s t then [PreviewCall f] else [])
                   @ (if m_writer s \<noteq> None then [WriterCall f] else [])
                   @ fst (CaptureThread s ts),
                 snd (CaptureThread s ts)))"
  using assms
  by (auto simp: fan_out_def split: option.splits prod.splits)

theorem CaptureThread_sink_exception_witness:
  "preview_taken example_capturing preview_failure_tick
   \<and> preview_throws preview_failure_tick = Some UnknownException
   \<and> CaptureThread example_capturing [preview_failure_tick, example_tick (example_frame 2) 0]
       = ([PreviewCall (example_frame 1)], Unhandled UnknownException)
   \<and> writer_throws writer_failure_tick = Some UnknownException
   \<and> CaptureThread example_capturing [writer_failure_tick, example_tick (example_frame 2) 0]
       = ([PreviewCall (example_frame 1), WriterCall (example_frame 1)],
          Unhandled UnknownException)
   \<and> CaptureThread example_capturing [example_tick (example_frame 1) 0]
       = ([PreviewCall (example_frame 1), WriterCall (example_frame 1)], Waiting)"
proof -
  have engine: "m_queue example_capturing \<noteq> None" "m_writer example_capturing \<noteq> None"
    by (simp_all add: example_capturing_def)
  have taken: "preview_taken example_capturing preview_failure_tick"
    "preview_taken example_capturing writer_failure_tick"
    "preview_taken example_capturing (example_tick (example_frame 1) 0)"
    by (simp_all add: preview_taken_def example_capturing_def example_normalized_def
        example_tick_def preview_failure_tick_def writer_failure_tick_def signed_divide_int_def)
  have ticks:
    "observed_state preview_failure_tick = Capturing"
    "get_result preview_failure_tick = Some (example_frame 1)"
    "preview_throws preview_failure_tick = Some UnknownException"
    "observed_state writer_failure_tick = Capturing"
    "get_result writer_failure_tick = Some (example_frame 1)"
    "preview_throws writer_failure_tick = None"
    "writer_throws writer_failure_tick = Some UnknownException"
    "observed_state (example_tick (example_frame 1) 0) = Capturing"
    "get_result (example_tick (example_frame 1) 0) = Some (example_frame 1)"
    "preview_throws (example_tick (example_frame 1) 0) = None"
    "writer_throws (example_tick (example_frame 1) 0) = None"
    by (simp_all add: example_tick_def preview_failure_tick_def writer_failure_tick_def)
  have data: "frame_data (example_frame 1) \<noteq> None"
    by (simp add: example_frame_def)
  from CaptureThread_sink_exception
      [OF ticks(1) engine(1) ticks(2) data, of UnknownException "[example_tick (example_frame 2) 0]"]
    CaptureThread_sink_exception
      [OF ticks(4) engine(1) ticks(5) data, of UnknownException "[example_tick (example_frame 2) 0]"]
    CaptureThread_sink_exception
      [OF ticks(8) engine(1) ticks(9) data, of UnknownException "[]"]
    taken ticks engine
  show ?thesis
    by simp
qed

end
